theory Spec2Isabelle
  imports Main
begin

section \<open>Tables\<close>

text \<open>
  The script \<^verbatim>\<open>scripts/load_merge.py\<close> works on data frames. A data frame is modelled
  row by row: the list of its column labels and the list of its rows, each row a list of
  cells in column order. A cell is a missing value, a text, a number, or a calendar day
  (year, month, day), which is what a parsed timestamp is reduced to here. Column types
  are not modelled: two cells are the same join key when they are equal as values, and a
  missing key equals a missing key, as it does in the library's joins.
\<close>

datatype cell = Null | Txt string | Num int | Day int int int

record table =
  columns :: "string list"
  rows :: "cell list list"

datatype error =
    FileNotFoundError string
  | ParserError string
  | KeyError string
  | ValueError string
  | MergeError

text \<open>A frame is rectangular: every row has one cell for each column.\<close>

definition rect :: "table \<Rightarrow> bool" where
  "rect t = list_all (\<lambda>r. length r = length (columns t)) (rows t)"

text \<open>
  The cell of row \<open>r\<close> under the label \<open>n\<close> (the first column of that name), missing
  when there is none.
\<close>

definition cell_of :: "string list \<Rightarrow> cell list \<Rightarrow> string \<Rightarrow> cell" where
  "cell_of cols r n = (case map_of (zip cols r) n of Some v \<Rightarrow> v | None \<Rightarrow> Null)"

section \<open>Files\<close>

text \<open>
  The source directory \<^verbatim>\<open>RAW\<close> maps a file name to the table the file holds, or to
  nothing when there is no such file. Reading a file that does not exist raises; so does a
  file whose records do not all have as many fields as the header.
\<close>

type_synonym directory = "string \<Rightarrow> table option"

definition ACC_FILE :: "directory \<Rightarrow> string" where
  "ACC_FILE raw = (if raw ''Accidents.csv'' \<noteq> None then ''Accidents.csv'' else ''Collisions.csv'')"

definition VEH_FILE :: string where
  "VEH_FILE = ''Vehicles.csv''"

definition CAS_FILE :: string where
  "CAS_FILE = ''Casualties.csv''"

definition read_csv_fast :: "directory \<Rightarrow> string \<Rightarrow> error + table" where
  "read_csv_fast raw path =
     (case raw path of
        None \<Rightarrow> Inl (FileNotFoundError path)
      | Some t \<Rightarrow> if rect t then Inr t else Inl (ParserError path))"

section \<open>Column names\<close>

text \<open>
  \<^verbatim>\<open>c.strip().lower().replace(" ", "_")\<close> on the code points below 256, which is what a
  HOL character is. \<open>isspace\<close> lists Python's whitespace in that range; \<open>lower_char\<close>
  moves the capital letters A to Z and the capital Latin-1 letters to their small forms.
\<close>

definition isspace :: "char \<Rightarrow> bool" where
  "isspace c = (of_char c \<in> set [9, 10, 11, 12, 13, 28, 29, 30, 31, 32, 133, 160 :: nat])"

definition strip :: "string \<Rightarrow> string" where
  "strip s = rev (dropWhile isspace (rev (dropWhile isspace s)))"

definition lower_char :: "char \<Rightarrow> char" where
  "lower_char c =
     (let n = (of_char c :: nat)
      in if (65 \<le> n \<and> n \<le> 90) \<or> (192 \<le> n \<and> n \<le> 222 \<and> n \<noteq> 215)
         then char_of (n + 32) else c)"

definition lower :: "string \<Rightarrow> string" where
  "lower s = map lower_char s"

definition replace_space :: "string \<Rightarrow> string" where
  "replace_space s = map (\<lambda>c. if c = CHR '' '' then CHR ''_'' else c) s"

definition normalise_name :: "string \<Rightarrow> string" where
  "normalise_name c = replace_space (lower (strip c))"

text \<open>
  \<^verbatim>\<open>df.rename(columns={c: ... for c in df.columns})\<close>: every label is a key of the
  dictionary, so every label is replaced by its normal form.
\<close>

definition normalise_cols :: "table \<Rightarrow> table" where
  "normalise_cols df = df\<lparr>columns := map normalise_name (columns df)\<rparr>"

section \<open>Keys\<close>

definition acc_id :: string where "acc_id = ''accident_index''"
definition veh_id :: string where "veh_id = ''accident_index''"
definition veh_ref :: string where "veh_ref = ''vehicle_reference''"
definition cas_id :: string where "cas_id = ''accident_index''"
definition cas_ref :: string where "cas_ref = ''vehicle_reference''"

section \<open>Dates\<close>

text \<open>
  \<^verbatim>\<open>next((c for c in acc.columns if c in ["date","accident_date"]), None)\<close>: the
  generator runs over the columns of the table.
\<close>

definition date_col :: "string list \<Rightarrow> string option" where
  "date_col cols = find (\<lambda>c. c \<in> set [''date'', ''accident_date'']) cols"

text \<open>
  \<^verbatim>\<open>df[name] = values\<close>: an existing label keeps its place and every column of that
  name takes the new values; a new label is appended on the right.
\<close>

definition assign :: "string \<Rightarrow> cell list \<Rightarrow> table \<Rightarrow> table" where
  "assign n vs df =
     (if n \<in> set (columns df)
      then df\<lparr>rows := map2 (\<lambda>v r. map2 (\<lambda>c x. if c = n then v else x) (columns df) r) vs (rows df)\<rparr>
      else df\<lparr>columns := columns df @ [n], rows := map2 (\<lambda>v r. r @ [v]) vs (rows df)\<rparr>)"

type_synonym date = "int \<times> int \<times> int"

definition date_cell :: "date option \<Rightarrow> cell" where
  "date_cell d = (case d of None \<Rightarrow> Null | Some (y, m, dd) \<Rightarrow> Day y m dd)"

definition year_cell :: "date option \<Rightarrow> cell" where
  "year_cell d = (case d of None \<Rightarrow> Null | Some (y, m, dd) \<Rightarrow> Num y)"

definition month_cell :: "date option \<Rightarrow> cell" where
  "month_cell d = (case d of None \<Rightarrow> Null | Some (y, m, dd) \<Rightarrow> Day y m 1)"

text \<open>
  Lines 35 to 39. The library's \<^verbatim>\<open>pd.to_datetime(..., errors="coerce", dayfirst=True)\<close>
  is the parameter \<open>to_datetime\<close>, applied to each cell of the date column: it gives the
  day a cell stands for, or nothing for a cell it cannot read. A date label that names
  more than one column selects a frame, which the library refuses to convert.
\<close>

definition derive_dates :: "(cell \<Rightarrow> date option) \<Rightarrow> table \<Rightarrow> error + table" where
  "derive_dates to_datetime acc =
     (case date_col (columns acc) of
        None \<Rightarrow> Inr acc
      | Some c \<Rightarrow>
          if count_list (columns acc) c \<noteq> 1 then Inl (ValueError c)
          else
            let ds = map (\<lambda>r. to_datetime (cell_of (columns acc) r c)) (rows acc);
                acc1 = assign c (map date_cell ds) acc;
                acc2 = assign ''year'' (map year_cell ds) acc1;
                acc3 = assign ''month'' (map month_cell ds) acc2
            in Inr acc3)"

section \<open>Selecting and joining\<close>

text \<open>
  \<^verbatim>\<open>df[names]\<close>: a label that is no column raises; a label that names several columns
  selects them all.
\<close>

definition pick :: "string list \<Rightarrow> string list \<Rightarrow> 'a list \<Rightarrow> 'a list" where
  "pick cols names xs = concat (map (\<lambda>n. map snd (filter (\<lambda>p. fst p = n) (zip cols xs))) names)"

definition getitem :: "table \<Rightarrow> string list \<Rightarrow> error + table" where
  "getitem df names =
     (case find (\<lambda>n. n \<notin> set (columns df)) names of
        Some n \<Rightarrow> Inl (KeyError n)
      | None \<Rightarrow> Inr \<lparr>columns = pick (columns df) names (columns df),
                     rows = map (pick (columns df) names) (rows df)\<rparr>)"

text \<open>A join key must name exactly one column of its table.\<close>

definition check_label :: "table \<Rightarrow> string \<Rightarrow> error option" where
  "check_label df k =
     (if k \<notin> set (columns df) then Some (KeyError k)
      else if count_list (columns df) k \<noteq> 1 then Some (ValueError k)
      else None)"

fun check_keys :: "table \<Rightarrow> table \<Rightarrow> (string \<times> string) list \<Rightarrow> error option" where
  "check_keys l r [] = None"
| "check_keys l r ((lk, rk) # ks) =
     (case check_label r rk of
        Some e \<Rightarrow> Some e
      | None \<Rightarrow> (case check_label l lk of Some e \<Rightarrow> Some e | None \<Rightarrow> check_keys l r ks))"

definition key_of :: "table \<Rightarrow> string list \<Rightarrow> cell list \<Rightarrow> cell list" where
  "key_of df ks r = map (cell_of (columns df) r) ks"

definition drop_cols :: "string list \<Rightarrow> string list \<Rightarrow> 'a list \<Rightarrow> 'a list" where
  "drop_cols cols ds xs = map snd (filter (\<lambda>p. fst p \<notin> set ds) (zip cols xs))"

text \<open>
  A label that the suffixes turned into a repetition of an earlier label, while it was no
  repetition before.
\<close>

definition suffix_dups :: "string list \<Rightarrow> string list \<Rightarrow> bool" where
  "suffix_dups old new =
     list_ex (\<lambda>i. new ! i \<in> set (take i new) \<and> old ! i \<notin> set (take i old)) [0..<length new]"

text \<open>
  \<^verbatim>\<open>left.merge(right, how="left", left_on=..., right_on=..., suffixes=...)\<close>. A key
  column of the right table whose label is that of its left partner is dropped before the
  labels are compared. The labels the two sides still share take the suffixes. Each left
  row, in order, gives one row for each right row with its key, in the right table's
  order, and one row with missing values on the right when there is none.
\<close>

definition merge_left ::
  "table \<Rightarrow> table \<Rightarrow> string list \<Rightarrow> string list \<Rightarrow> string \<times> string \<Rightarrow> error + table" where
  "merge_left l r left_on right_on suffixes =
     (case check_keys l r (zip left_on right_on) of
        Some e \<Rightarrow> Inl e
      | None \<Rightarrow>
          let right_drop = map snd (filter (\<lambda>p. fst p = snd p) (zip left_on right_on));
              rcols = filter (\<lambda>c. c \<notin> set right_drop) (columns r);
              to_rename = filter (\<lambda>c. c \<in> set rcols) (columns l);
              llabels = map (\<lambda>c. if c \<in> set to_rename then c @ fst suffixes else c) (columns l);
              rlabels = map (\<lambda>c. if c \<in> set to_rename then c @ snd suffixes else c) rcols
          in if to_rename \<noteq> [] \<and> fst suffixes = [] \<and> snd suffixes = []
             then Inl (ValueError ''columns overlap but no suffix specified'')
             else if to_rename \<noteq> [] \<and> (suffix_dups (columns l) llabels \<or> suffix_dups rcols rlabels)
             then Inl MergeError
             else Inr \<lparr>columns = llabels @ rlabels,
                       rows = concat (map (\<lambda>lr.
                         case filter (\<lambda>rr. key_of r right_on rr = key_of l left_on lr) (rows r) of
                           [] \<Rightarrow> [lr @ replicate (length rcols) Null]
                         | ms \<Rightarrow> map (\<lambda>rr. lr @ drop_cols (columns r) right_drop rr) ms) (rows l))\<rparr>)"

section \<open>The pipeline\<close>

text \<open>Lines 22 to 24: the three tables, read in this order, each with normal labels.\<close>

definition load :: "directory \<Rightarrow> error + (table \<times> table \<times> table)" where
  "load raw =
     (case read_csv_fast raw (ACC_FILE raw) of
        Inl e \<Rightarrow> Inl e
      | Inr a \<Rightarrow>
          (case read_csv_fast raw VEH_FILE of
             Inl e \<Rightarrow> Inl e
           | Inr v \<Rightarrow>
               (case read_csv_fast raw CAS_FILE of
                  Inl e \<Rightarrow> Inl e
                | Inr c \<Rightarrow> Inr (normalise_cols a, normalise_cols v, normalise_cols c))))"

text \<open>Lines 35 to 51: the date columns, then the two joins.\<close>

definition join :: "(cell \<Rightarrow> date option) \<Rightarrow> table \<Rightarrow> table \<Rightarrow> table \<Rightarrow> error + table" where
  "join to_datetime acc veh cas =
     (case derive_dates to_datetime acc of
        Inl e \<Rightarrow> Inl e
      | Inr acc' \<Rightarrow>
          (case getitem veh [veh_id, veh_ref] of
             Inl e \<Rightarrow> Inl e
           | Inr vk \<Rightarrow>
               (case merge_left cas vk [cas_id, cas_ref] [veh_id, veh_ref] ('''', '''') of
                  Inl e \<Rightarrow> Inl e
                | Inr cas' \<Rightarrow> merge_left cas' acc' [cas_id] [acc_id] (''_cas'', ''_acc''))))"

text \<open>Lines 54 to 74: the labels asked for, in order; \<^verbatim>\<open>None\<close> stands where an optional label is absent.\<close>

definition optional :: "string list \<Rightarrow> string \<Rightarrow> string option" where
  "optional cols n = (if n \<in> set cols then Some n else None)"

definition wanted_cols :: "string list \<Rightarrow> string option \<Rightarrow> string option list" where
  "wanted_cols cols dc =
     [Some cas_id, Some cas_ref,
      Some (if ''severity'' \<in> set cols then ''severity'' else ''casualty_severity''),
      Some ''casualty_class'', Some ''sex_of_casualty'', Some ''age_band_of_casualty'',
      optional cols ''sex_of_driver'',
      optional cols ''age_band_of_driver'',
      optional cols ''vehicle_type'',
      dc, Some ''year'', Some ''month'',
      Some ''light_conditions'', Some ''weather_conditions'', Some ''road_type'', Some ''speed_limit'',
      optional cols ''local_authority_(district)'',
      optional cols ''police_force'',
      optional cols ''number_of_vehicles'',
      optional cols ''number_of_casualties'',
      optional cols ''longitude'',
      optional cols ''latitude'']"

text \<open>
  Line 75: an entry stays when it is neither \<^verbatim>\<open>None\<close> nor the empty text and is a
  label of the joined table.
\<close>

definition keep_cols :: "string list \<Rightarrow> string option \<Rightarrow> string list" where
  "keep_cols cols dc =
     filter (\<lambda>c. c \<noteq> [] \<and> c \<in> set cols)
       (concat (map (\<lambda>w. case w of None \<Rightarrow> [] | Some c \<Rightarrow> [c]) (wanted_cols cols dc)))"

text \<open>The labels that lines 62 to 73 ask for only when the joined table has them.\<close>

definition optional_fields :: "string list" where
  "optional_fields =
     [''sex_of_driver'', ''age_band_of_driver'', ''vehicle_type'',
      ''local_authority_(district)'', ''police_force'',
      ''number_of_vehicles'', ''number_of_casualties'', ''longitude'', ''latitude'']"

definition rename_col :: "string \<Rightarrow> string \<Rightarrow> table \<Rightarrow> table" where
  "rename_col old new df = df\<lparr>columns := map (\<lambda>c. if c = old then new else c) (columns df)\<rparr>"

text \<open>Lines 76 to 80: the projection and the name of the target column.\<close>

definition tidy :: "table \<Rightarrow> string option \<Rightarrow> error + table" where
  "tidy joined dc =
     (case getitem joined (keep_cols (columns joined) dc) of
        Inl e \<Rightarrow> Inl e
      | Inr t \<Rightarrow>
          if ''casualty_severity'' \<in> set (columns t) \<and> ''severity'' \<notin> set (columns t)
          then Inr (rename_col ''casualty_severity'' ''severity'' t)
          else Inr t)"

text \<open>
  \<open>main\<close> returns the table that is handed to \<^verbatim>\<open>to_parquet\<close>; writing the file is
  outside the model. The date label is looked up on the collision table as it was read,
  before the date columns are added.
\<close>

definition main :: "(cell \<Rightarrow> date option) \<Rightarrow> directory \<Rightarrow> error + table" where
  "main to_datetime raw =
     (case load raw of
        Inl e \<Rightarrow> Inl e
      | Inr (acc, veh, cas) \<Rightarrow>
          (case join to_datetime acc veh cas of
             Inl e \<Rightarrow> Inl e
           | Inr joined \<Rightarrow> tidy joined (date_col (columns acc))))"

section \<open>A day-first reader\<close>

text \<open>
  Modelled from the spec: \<^verbatim>\<open>pd.to_datetime\<close> belongs to the library, not to the
  repository. The Date Deriver of the spec reads a value as a calendar date with the day
  before the month, and turns a value it cannot read into the missing marker. This reader
  does so for texts of the form day/month/year in decimal digits that name a day of the
  calendar; every other text, a number, and a missing value are unreadable, and a cell that
  is a day already stands for itself.
\<close>

fun split_on :: "char \<Rightarrow> string \<Rightarrow> string list" where
  "split_on s [] = [[]]"
| "split_on s (c # cs) =
     (if c = s then [] # split_on s cs
      else (case split_on s cs of [] \<Rightarrow> [[c]] | w # ws \<Rightarrow> (c # w) # ws))"

definition is_digit :: "char \<Rightarrow> bool" where
  "is_digit c = (48 \<le> (of_char c :: nat) \<and> (of_char c :: nat) \<le> 57)"

definition read_nat :: "string \<Rightarrow> nat option" where
  "read_nat s =
     (if s \<noteq> [] \<and> list_all is_digit s
      then Some (foldl (\<lambda>a c. 10 * a + (of_char c - 48)) 0 s) else None)"

definition is_leap :: "nat \<Rightarrow> bool" where
  "is_leap y = (y mod 4 = 0 \<and> (y mod 100 \<noteq> 0 \<or> y mod 400 = 0))"

definition days_in_month :: "nat \<Rightarrow> nat \<Rightarrow> nat" where
  "days_in_month y m =
     (if m = 2 then (if is_leap y then 29 else 28)
      else if m \<in> set [4, 6, 9, 11] then 30 else 31)"

definition parse_dayfirst :: "string \<Rightarrow> date option" where
  "parse_dayfirst s =
     (case map read_nat (split_on (CHR ''/'') s) of
        [Some d, Some m, Some y] \<Rightarrow>
          if 1 \<le> m \<and> m \<le> 12 \<and> 1 \<le> d \<and> d \<le> days_in_month y m \<and> 1 \<le> y
          then Some (int y, int m, int d) else None
      | _ \<Rightarrow> None)"

definition to_datetime_dayfirst :: "cell \<Rightarrow> date option" where
  "to_datetime_dayfirst c =
     (case c of
        Txt s \<Rightarrow> parse_dayfirst s
      | Day y m d \<Rightarrow> Some (y, m, d)
      | _ \<Rightarrow> None)"

section \<open>Example releases\<close>

text \<open>
  A small release: two collisions, one vehicle in each, three casualties of which the
  second names a vehicle that has no record. The headers are as a raw file has them.
\<close>

definition ex_accidents :: table where
  "ex_accidents =
     \<lparr>columns = [''Accident Index'', ''Date'', ''Speed Limit''],
      rows = [[Txt ''A1'', Txt ''31/12/2020'', Num 30],
              [Txt ''A2'', Txt ''not-a-date'', Num 60]]\<rparr>"

definition ex_vehicles :: table where
  "ex_vehicles =
     \<lparr>columns = [''Accident_Index'', ''Vehicle_Reference'', ''Vehicle_Type''],
      rows = [[Txt ''A1'', Num 1, Num 9],
              [Txt ''A2'', Num 1, Num 11]]\<rparr>"

definition ex_casualties :: table where
  "ex_casualties =
     \<lparr>columns = [''Accident_Index'', ''Vehicle_Reference'', ''Casualty_Severity'', ''Casualty_Class''],
      rows = [[Txt ''A1'', Num 1, Num 3, Num 1],
              [Txt ''A1'', Num 2, Num 2, Num 3],
              [Txt ''A2'', Num 1, Num 1, Num 1]]\<rparr>"

definition ex_raw :: directory where
  "ex_raw =
     (\<lambda>p. None)(''Accidents.csv'' := Some ex_accidents,
               ''Vehicles.csv'' := Some ex_vehicles,
               ''Casualties.csv'' := Some ex_casualties)"

text \<open>The same release with no collision file under either name.\<close>

definition ex_raw_missing :: directory where
  "ex_raw_missing = ex_raw(''Accidents.csv'' := None)"




text \<open>
  A release without vehicle attributes: the vehicle file holds the keys only, and the
  collision file gives a longitude.
\<close>

definition ex_accidents_geo :: table where
  "ex_accidents_geo =
     \<lparr>columns = [''Accident Index'', ''Longitude''],
      rows = [[Txt ''A1'', Num 1], [Txt ''A2'', Num 2]]\<rparr>"

definition ex_vehicles_keys :: table where
  "ex_vehicles_keys =
     \<lparr>columns = [''Accident_Index'', ''Vehicle_Reference''],
      rows = [[Txt ''A1'', Num 1], [Txt ''A2'', Num 1]]\<rparr>"

definition ex_raw_geo :: directory where
  "ex_raw_geo =
     (\<lambda>p. None)(''Accidents.csv'' := Some ex_accidents_geo,
               ''Vehicles.csv'' := Some ex_vehicles_keys,
               ''Casualties.csv'' := Some ex_casualties)"

definition ex_joined_geo :: table where
  "ex_joined_geo =
     \<lparr>columns = [''accident_index'', ''vehicle_reference'', ''casualty_severity'',
                 ''casualty_class'', ''longitude''],
      rows = [[Txt ''A1'', Num 1, Num 3, Num 1, Num 1],
              [Txt ''A1'', Num 2, Num 2, Num 3, Num 1],
              [Txt ''A2'', Num 1, Num 1, Num 1, Num 2]]\<rparr>"

text \<open>
  Casualties of which the last belongs to a collision, A3, that the collision file does
  not have, and the table that joining them to the first release gives.
\<close>

definition ex_casualties_extra :: table where
  "ex_casualties_extra =
     \<lparr>columns = [''Accident_Index'', ''Vehicle_Reference'', ''Casualty_Severity''],
      rows = [[Txt ''A1'', Num 1, Num 3],
              [Txt ''A1'', Num 2, Num 2],
              [Txt ''A2'', Num 1, Num 1],
              [Txt ''A3'', Num 1, Num 2]]\<rparr>"

definition ex_joined_extra :: table where
  "ex_joined_extra =
     \<lparr>columns = [''accident_index'', ''vehicle_reference'', ''casualty_severity'',
                 ''date'', ''speed_limit'', ''year'', ''month''],
      rows = [[Txt ''A1'', Num 1, Num 3, Day 2020 12 31, Num 30, Num 2020, Day 2020 12 1],
              [Txt ''A1'', Num 2, Num 2, Day 2020 12 31, Num 30, Num 2020, Day 2020 12 1],
              [Txt ''A2'', Num 1, Num 1, Null, Num 60, Null, Null],
              [Txt ''A3'', Num 1, Num 2, Null, Null, Null, Null]]\<rparr>"



text \<open>The effect of \<open>lower\<close> and then \<open>replace_space\<close> on one character.\<close>

definition norm_char :: "char \<Rightarrow> char" where
  "norm_char c = (let d = lower_char c in if d = CHR '' '' then CHR ''_'' else d)"

section \<open>Column names: normal forms\<close>

lemma of_char_lower_char:
  "(of_char (lower_char c) :: nat) =
     (let n = (of_char c :: nat)
      in if (65 \<le> n \<and> n \<le> 90) \<or> (192 \<le> n \<and> n \<le> 222 \<and> n \<noteq> 215) then n + 32 else n)"
  by (auto simp: lower_char_def Let_def of_char_of)

lemma lower_char_idem: "lower_char (lower_char c) = lower_char c"
proof -
  have "(of_char (lower_char (lower_char c)) :: nat) = of_char (lower_char c)"
    by (simp add: of_char_lower_char [of "lower_char c"] Let_def) (auto simp: of_char_lower_char Let_def)
  then show ?thesis by simp
qed

lemma isspace_lower_char: "isspace (lower_char c) = isspace c"
  by (auto simp: isspace_def of_char_lower_char Let_def)

lemma normalise_name_map: "normalise_name s = map norm_char (strip s)"
  by (simp add: normalise_name_def replace_space_def lower_def norm_char_def Let_def)

lemma lower_underscore: "lower_char (CHR ''_'') = CHR ''_''"
  by (simp add: lower_char_def)

lemma norm_char_idem: "norm_char (norm_char c) = norm_char c"
  by (simp add: norm_char_def Let_def lower_char_idem lower_underscore)

lemma underscore_no_space: "\<not> isspace (CHR ''_'')"
  by (simp add: isspace_def)

lemma isspace_norm_char: "\<not> isspace c \<Longrightarrow> \<not> isspace (norm_char c)"
  by (simp add: norm_char_def Let_def isspace_lower_char underscore_no_space)

lemma last_dropWhile: "dropWhile P xs \<noteq> [] \<Longrightarrow> last (dropWhile P xs) = last xs"
  by (induction xs) (auto split: if_splits)

text \<open>What \<open>strip\<close> leaves neither starts nor ends with whitespace.\<close>

lemma strip_ends:
  "strip s \<noteq> [] \<Longrightarrow> \<not> isspace (hd (strip s)) \<and> \<not> isspace (last (strip s))"
proof -
  assume ne: "strip s \<noteq> []"
  let ?t = "dropWhile isspace s"
  let ?u = "dropWhile isspace (rev ?t)"
  from ne have u: "?u \<noteq> []" by (simp add: strip_def)
  have t: "?t \<noteq> []"
  proof
    assume "?t = []"
    then have "?u = []" by (simp only: rev.simps dropWhile.simps)
    with u show False by (simp only: not_True_eq_False simp_thms)
  qed
  have "\<not> isspace (hd ?u)" using u by (rule hd_dropWhile)
  moreover have "last ?u = last (rev ?t)" using u by (rule last_dropWhile)
  moreover have "\<not> isspace (hd ?t)" using t by (rule hd_dropWhile)
  ultimately show ?thesis using u t
    by (simp add: strip_def hd_rev last_rev)
qed

lemma strip_fixed:
  "s = [] \<or> (\<not> isspace (hd s) \<and> \<not> isspace (last s)) \<Longrightarrow> strip s = s"
proof (cases s)
  case Nil then show ?thesis by (simp add: strip_def)
next
  case (Cons a as)
  assume "s = [] \<or> (\<not> isspace (hd s) \<and> \<not> isspace (last s))"
  with Cons have h: "\<not> isspace (hd s)" and l: "\<not> isspace (last s)" by auto
  from h Cons have 1: "dropWhile isspace s = s" by simp
  from Cons have ne: "s \<noteq> []" by simp
  then have "rev s \<noteq> []" by simp
  moreover from l ne have "\<not> isspace (hd (rev s))" by (simp add: hd_rev)
  ultimately have 2: "dropWhile isspace (rev s) = rev s" by (cases "rev s") auto
  show ?thesis by (simp add: strip_def 1 2)
qed

lemma normalise_name_idem: "normalise_name (normalise_name s) = normalise_name s"
proof -
  let ?t = "strip s"
  have "strip (map norm_char ?t) = map norm_char ?t"
  proof (rule strip_fixed, cases "?t = []")
    case True
    then show "map norm_char ?t = [] \<or>
        (\<not> isspace (hd (map norm_char ?t)) \<and> \<not> isspace (last (map norm_char ?t)))"
      by simp
  next
    case False
    then show "map norm_char ?t = [] \<or>
        (\<not> isspace (hd (map norm_char ?t)) \<and> \<not> isspace (last (map norm_char ?t)))"
      using strip_ends [OF False] by (simp add: hd_map last_map isspace_norm_char)
  qed
  then show ?thesis by (simp add: normalise_name_map norm_char_idem)
qed

text \<open>
  Claim C7. Normalising the column names of a table that has been normalised gives the
  same table again, and normalising never touches the rows: their number, their order and
  their cells stay as they were, and so does the number of columns.
\<close>

theorem normalise_cols_idempotent:
  "normalise_cols (normalise_cols df) = normalise_cols df
   \<and> rows (normalise_cols df) = rows df
   \<and> length (columns (normalise_cols df)) = length (columns df)"
  by (simp add: normalise_cols_def normalise_name_idem)

theorem normalise_cols_idempotent_witness:
  "normalise_cols (normalise_cols ex_accidents) = normalise_cols ex_accidents
   \<and> rows (normalise_cols ex_accidents) = rows ex_accidents
   \<and> length (columns (normalise_cols ex_accidents)) = length (columns ex_accidents)
   \<and> columns (normalise_cols ex_accidents) = [''accident_index'', ''date'', ''speed_limit'']"
proof -
  have "columns (normalise_cols ex_accidents) = [''accident_index'', ''date'', ''speed_limit'']"
    by code_simp
  then show ?thesis
    using normalise_cols_idempotent [of ex_accidents] by simp
qed

section \<open>The collision file\<close>





text \<open>
  Claim C6. When the source directory holds neither Accidents.csv nor Collisions.csv the
  run ends with the error of the first read, a file that is not found, and no table is
  produced.
\<close>

theorem missing_collision_file_aborts:
  "raw ''Accidents.csv'' = None \<Longrightarrow> raw ''Collisions.csv'' = None \<Longrightarrow>
   main to_datetime raw = Inl (FileNotFoundError ''Collisions.csv'')"
  by (simp add: main_def load_def ACC_FILE_def read_csv_fast_def)

theorem missing_collision_file_aborts_witness:
  "ex_raw_missing ''Accidents.csv'' = None \<and> ex_raw_missing ''Collisions.csv'' = None
   \<and> ex_raw_missing ''Casualties.csv'' = Some ex_casualties
   \<and> main to_datetime_dayfirst ex_raw_missing = Inl (FileNotFoundError ''Collisions.csv'')"
proof -
  have a: "ex_raw_missing ''Accidents.csv'' = None" by (simp add: ex_raw_missing_def)
  have c: "ex_raw_missing ''Collisions.csv'' = None" by (simp add: ex_raw_missing_def ex_raw_def)
  have k: "ex_raw_missing ''Casualties.csv'' = Some ex_casualties"
    by (simp add: ex_raw_missing_def ex_raw_def)
  from missing_collision_file_aborts [OF a c, of to_datetime_dayfirst] a c k show ?thesis by simp
qed

section \<open>The date column\<close>

lemma date_col_first:
  "c \<in> set [''date'', ''accident_date''] \<Longrightarrow>
   \<forall>x\<in>set xs. x \<notin> set [''date'', ''accident_date''] \<Longrightarrow>
   date_col (xs @ c # ys) = Some c"
  unfolding date_col_def by (induction xs) auto

lemma date_col_none:
  "date_col cols = None \<longleftrightarrow> ''date'' \<notin> set cols \<and> ''accident_date'' \<notin> set cols"
  unfolding date_col_def by (auto simp: find_None_iff)

lemma date_col_some:
  "date_col cols = Some c \<Longrightarrow> c \<in> set cols \<and> (c = ''date'' \<or> c = ''accident_date'')"
  unfolding date_col_def by (induction cols) (auto split: if_splits)

text \<open>
  Claim C3, as stated, fails: with both columns present and accident_date standing to the
  left of date, the column found is accident_date, not date.
\<close>

theorem date_col_priority_counterexample:
  "\<not> (''date'' \<in> set [''accident_date'', ''date'']
       \<and> ''accident_date'' \<in> set [''accident_date'', ''date'']
       \<longrightarrow> date_col [''accident_date'', ''date''] = Some ''date'')"
  by (simp add: date_col_def)

text \<open>
  Claim C3, amended. The date column is the leftmost column of the table whose name is
  date or accident_date. So a table with date and without accident_date gives date, a
  table with accident_date and without date gives accident_date, a table with neither
  gives the absent marker, and a table with both gives whichever of the two stands
  first among its columns.
\<close>

theorem date_col_leftmost:
  "(c \<in> set [''date'', ''accident_date''] \<and> (\<forall>x\<in>set xs. x \<notin> set [''date'', ''accident_date''])
      \<longrightarrow> date_col (xs @ c # ys) = Some c)
   \<and> (''date'' \<in> set cols \<and> ''accident_date'' \<notin> set cols \<longrightarrow> date_col cols = Some ''date'')
   \<and> (''accident_date'' \<in> set cols \<and> ''date'' \<notin> set cols \<longrightarrow> date_col cols = Some ''accident_date'')
   \<and> (''date'' \<notin> set cols \<and> ''accident_date'' \<notin> set cols \<longrightarrow> date_col cols = None)"
proof (intro conjI impI)
  assume "c \<in> set [''date'', ''accident_date''] \<and> (\<forall>x\<in>set xs. x \<notin> set [''date'', ''accident_date''])"
  then show "date_col (xs @ c # ys) = Some c" by (simp add: date_col_first)
next
  assume h: "''date'' \<in> set cols \<and> ''accident_date'' \<notin> set cols"
  then have "date_col cols \<noteq> None" by (simp add: date_col_none)
  then obtain d where d: "date_col cols = Some d" by auto
  from date_col_some [OF d] h show "date_col cols = Some ''date''" using d by auto
next
  assume h: "''accident_date'' \<in> set cols \<and> ''date'' \<notin> set cols"
  then have "date_col cols \<noteq> None" by (simp add: date_col_none)
  then obtain d where d: "date_col cols = Some d" by auto
  from date_col_some [OF d] h show "date_col cols = Some ''accident_date''" using d by auto
next
  assume "''date'' \<notin> set cols \<and> ''accident_date'' \<notin> set cols"
  then show "date_col cols = None" by (simp add: date_col_none)
qed

theorem date_col_leftmost_witness:
  "date_col ([''accident_index''] @ ''accident_date'' # [''date'']) = Some ''accident_date''
   \<and> date_col [''accident_index'', ''date''] = Some ''date''
   \<and> date_col [''accident_index'', ''accident_date''] = Some ''accident_date''
   \<and> date_col [''accident_index''] = None"
  using date_col_leftmost [of "''accident_date''" "[''accident_index'']" "[''date'']" "[''accident_index'', ''date'']"]
        date_col_leftmost [of "''accident_date''" "[''accident_index'']" "[''date'']" "[''accident_index'', ''accident_date'']"]
        date_col_leftmost [of "''accident_date''" "[''accident_index'']" "[''date'']" "[''accident_index'']"]
  by simp

section \<open>Selection, joins and the projection\<close>

lemma zip_self_filter: "map snd (filter (\<lambda>p. fst p = n) (zip cols cols)) = filter (\<lambda>c. c = n) cols"
  by (induction cols) auto

lemma pick_self: "pick cols names cols = concat (map (\<lambda>n. filter (\<lambda>c. c = n) cols) names)"
  by (simp add: pick_def zip_self_filter)

lemma set_pick_self: "set (pick cols names cols) = set names \<inter> set cols"
  by (auto simp: pick_self)

lemma columns_assign:
  "columns (assign n vs df) = (if n \<in> set (columns df) then columns df else columns df @ [n])"
  by (simp add: assign_def)

lemma derive_dates_columns:
  assumes "derive_dates P acc = Inr acc'"
  shows "set (columns acc') \<subseteq> set (columns acc) \<union> {''year'', ''month''}"
    and "set (columns acc) \<subseteq> set (columns acc')"
    and "distinct (columns acc) \<Longrightarrow> distinct (columns acc')"
  using assms
  by (auto simp: derive_dates_def Let_def columns_assign split: option.splits if_splits)

lemma join_Inr:
  "join P acc veh cas = Inr j \<Longrightarrow>
   \<exists>acc' vk cas'. derive_dates P acc = Inr acc'
     \<and> getitem veh [veh_id, veh_ref] = Inr vk
     \<and> merge_left cas vk [cas_id, cas_ref] [veh_id, veh_ref] ('''', '''') = Inr cas'
     \<and> merge_left cas' acc' [cas_id] [acc_id] (''_cas'', ''_acc'') = Inr j"
  by (auto simp: join_def split: sum.splits)

lemma merge_left_Inr:
  assumes "merge_left l r lo ro sfx = Inr j"
  defines "rd \<equiv> map snd (filter (\<lambda>p. fst p = snd p) (zip lo ro))"
  defines "rc \<equiv> filter (\<lambda>c. c \<notin> set rd) (columns r)"
  defines "tr \<equiv> filter (\<lambda>c. c \<in> set rc) (columns l)"
  shows "columns j = map (\<lambda>c. if c \<in> set tr then c @ fst sfx else c) (columns l)
                   @ map (\<lambda>c. if c \<in> set tr then c @ snd sfx else c) rc"
    and "rows j = concat (map (\<lambda>lr.
                         case filter (\<lambda>rr. key_of r ro rr = key_of l lo lr) (rows r) of
                           [] \<Rightarrow> [lr @ replicate (length rc) Null]
                         | ms \<Rightarrow> map (\<lambda>rr. lr @ drop_cols (columns r) rd rr) ms) (rows l))"
    and "check_keys l r (zip lo ro) = None"
  using assms(1) unfolding rd_def rc_def tr_def merge_left_def Let_def
  by (auto split: option.splits if_splits)

lemma getitem_Inr:
  "getitem df names = Inr t \<Longrightarrow>
   columns t = pick (columns df) names (columns df) \<and> rows t = map (pick (columns df) names) (rows df)
   \<and> set names \<subseteq> set (columns df)"
  by (auto simp: getitem_def find_None_iff split: option.splits)

lemma first_merge_columns:
  assumes "getitem veh [veh_id, veh_ref] = Inr vk"
      and "merge_left cas vk [cas_id, cas_ref] [veh_id, veh_ref] ('''', '''') = Inr cas'"
  shows "columns cas' = columns cas"
proof -
  have rd: "map snd (filter (\<lambda>p. fst p = snd p) (zip [cas_id, cas_ref] [veh_id, veh_ref])) = [veh_id, veh_ref]"
    by (simp add: cas_id_def cas_ref_def veh_id_def veh_ref_def)
  have "set (columns vk) \<subseteq> {veh_id, veh_ref}"
    using getitem_Inr [OF assms(1)] by (auto simp: set_pick_self)
  then have rc: "filter (\<lambda>c. c \<notin> set [veh_id, veh_ref]) (columns vk) = []"
    by (auto simp: filter_empty_conv)
  from merge_left_Inr(1) [OF assms(2)] show ?thesis
    by (simp only: rd rc) simp
qed

lemma suffixed_labels:
  "n \<in> set (map (\<lambda>c. if c \<in> T then c @ s else c) xs) \<Longrightarrow> n \<in> set xs \<or> (\<exists>c. n = c @ s)"
  by auto

lemma join_columns:
  assumes "join P acc veh cas = Inr j" and "n \<in> set (columns j)"
  shows "n \<in> set (columns cas) \<or> n \<in> set (columns acc) \<or> n = ''year'' \<or> n = ''month''
         \<or> (\<exists>c. n = c @ ''_cas'') \<or> (\<exists>c. n = c @ ''_acc'')"
proof -
  from join_Inr [OF assms(1)] obtain acc' vk cas' where
    d: "derive_dates P acc = Inr acc'" and g: "getitem veh [veh_id, veh_ref] = Inr vk"
    and m1: "merge_left cas vk [cas_id, cas_ref] [veh_id, veh_ref] ('''', '''') = Inr cas'"
    and m2: "merge_left cas' acc' [cas_id] [acc_id] (''_cas'', ''_acc'') = Inr j" by blast
  have c1: "columns cas' = columns cas" by (rule first_merge_columns [OF g m1])
  have c2: "set (columns acc') \<subseteq> set (columns acc) \<union> {''year'', ''month''}"
    by (rule derive_dates_columns(1) [OF d])
  from assms(2) merge_left_Inr(1) [OF m2]
  have "n \<in> set (columns cas') \<or> (\<exists>c. n = c @ ''_cas'') \<or> n \<in> set (columns acc') \<or> (\<exists>c. n = c @ ''_acc'')"
    by (auto split: if_splits)
  with c1 c2 show ?thesis by auto
qed

lemma count_list_filter_eq: "count_list (filter (\<lambda>c. c = n) xs) x = (if x = n then count_list xs x else 0)"
  by (induction xs) auto


lemma count_pick_self: "count_list (pick cols names cols) x = count_list names x * count_list cols x"
  by (induction names) (auto simp: pick_self count_list_filter_eq)

lemma keep_cols_subset: "set (keep_cols cols dc) \<subseteq> set cols"
  by (auto simp: keep_cols_def)






lemma optional_wanted:
  "n \<in> set optional_fields \<Longrightarrow> optional cols n \<in> set (wanted_cols cols dc)"
  by (auto simp: optional_fields_def wanted_cols_def)

lemma keep_optional:
  assumes "n \<in> set optional_fields"
  shows "n \<in> set (keep_cols cols dc) \<longleftrightarrow> n \<in> set cols"
proof
  assume "n \<in> set (keep_cols cols dc)"
  then show "n \<in> set cols" using keep_cols_subset by blast
next
  assume n: "n \<in> set cols"
  from assms have ne: "n \<noteq> []" by (auto simp: optional_fields_def)
  from n have "optional cols n = Some n" by (simp add: optional_def)
  with optional_wanted [OF assms, of cols dc] have "Some n \<in> set (wanted_cols cols dc)" by simp
  then have "n \<in> set (concat (map (\<lambda>w. case w of None \<Rightarrow> [] | Some c \<Rightarrow> [c]) (wanted_cols cols dc)))"
    by force
  with n ne show "n \<in> set (keep_cols cols dc)" by (simp add: keep_cols_def)
qed

lemma getitem_keep:
  "getitem j (keep_cols (columns j) dc) =
     Inr \<lparr>columns = pick (columns j) (keep_cols (columns j) dc) (columns j),
          rows = map (pick (columns j) (keep_cols (columns j) dc)) (rows j)\<rparr>"
proof -
  have "find (\<lambda>n. n \<notin> set (columns j)) (keep_cols (columns j) dc) = None"
    using keep_cols_subset [of "columns j" dc] by (auto simp: find_None_iff)
  then show ?thesis by (simp add: getitem_def)
qed

lemma tidy_Inr:
  "\<exists>out. tidy j dc = Inr out
     \<and> rows out = map (pick (columns j) (keep_cols (columns j) dc)) (rows j)
     \<and> columns out =
         (if ''casualty_severity'' \<in> set (pick (columns j) (keep_cols (columns j) dc) (columns j))
             \<and> ''severity'' \<notin> set (pick (columns j) (keep_cols (columns j) dc) (columns j))
          then map (\<lambda>c. if c = ''casualty_severity'' then ''severity'' else c)
                 (pick (columns j) (keep_cols (columns j) dc) (columns j))
          else pick (columns j) (keep_cols (columns j) dc) (columns j))"
  by (simp add: tidy_def getitem_keep rename_col_def)

lemma set_kept: "set (pick cols (keep_cols cols dc) cols) = set (keep_cols cols dc)"
  using keep_cols_subset [of cols dc] by (auto simp: set_pick_self)

lemma main_tidy:
  "load raw = Inr (acc, veh, cas) \<Longrightarrow> join P acc veh cas = Inr j \<Longrightarrow>
   main P raw = tidy j (date_col (columns acc))"
  by (simp add: main_def)

section \<open>The example releases, evaluated\<close>





section \<open>The outcome column\<close>



section \<open>Vehicle attributes\<close>

text \<open>
  Claim C1 does not hold of the code. The first join takes only the two key columns of
  the vehicle table (line 42), so no attribute of a vehicle reaches the joined table. In
  the example release the vehicle table has a vehicle_type column and the first casualty
  (collision A1, vehicle 1) matches the vehicle of type 9; the table the run returns has
  no vehicle_type column, neither with that value nor with a missing one.
\<close>

theorem vehicle_attributes_not_carried:
  "main to_datetime_dayfirst ex_raw =
     Inr \<lparr>columns = [''accident_index'', ''vehicle_reference'', ''severity'', ''casualty_class'',
                     ''date'', ''year'', ''month'', ''speed_limit''],
          rows = [[Txt ''A1'', Num 1, Num 3, Num 1, Day 2020 12 31, Num 2020, Day 2020 12 1, Num 30],
                  [Txt ''A1'', Num 2, Num 2, Num 3, Day 2020 12 31, Num 2020, Day 2020 12 1, Num 30],
                  [Txt ''A2'', Num 1, Num 1, Num 1, Null, Null, Null, Num 60]]\<rparr>"
  by code_simp

section \<open>Optional columns and the name of the outcome\<close>

lemma rename_mem:
  "n \<noteq> old \<Longrightarrow> n \<noteq> new \<Longrightarrow>
   n \<in> set (map (\<lambda>c. if c = old then new else c) xs) \<longleftrightarrow> n \<in> set xs"
  by auto

lemma optional_not_outcome:
  "n \<in> set optional_fields \<Longrightarrow> n \<noteq> ''severity'' \<and> n \<noteq> ''casualty_severity''"
  by (auto simp: optional_fields_def)

lemma not_suffixed: "s \<noteq> [] \<Longrightarrow> last n \<noteq> last s \<Longrightarrow> n \<noteq> c @ s"
  by auto

lemma vehicle_type_not_joined:
  assumes "join P acc veh cas = Inr j"
      and "''vehicle_type'' \<notin> set (columns acc)" and "''vehicle_type'' \<notin> set (columns cas)"
  shows "''vehicle_type'' \<notin> set (columns j)"
proof
  assume "''vehicle_type'' \<in> set (columns j)"
  from join_columns [OF assms(1) this] assms(2,3)
  have "(\<exists>c. ''vehicle_type'' = c @ ''_cas'') \<or> (\<exists>c. ''vehicle_type'' = c @ ''_acc'')" by simp
  moreover have "\<And>c. ''vehicle_type'' \<noteq> c @ ''_cas''" by (rule not_suffixed) simp_all
  moreover have "\<And>c. ''vehicle_type'' \<noteq> c @ ''_acc''" by (rule not_suffixed) simp_all
  ultimately show False by blast
qed

text \<open>
  Claim C8. Each optional label (driver sex and age band, vehicle type, local authority,
  police force, the numbers of vehicles and of casualties, longitude and latitude) is a
  column of the table the run returns exactly when it is a column of the joined table: an
  absent one gives no column, not a column of missing values. In particular, when none of
  the three tables has a vehicle_type column, neither has the result.
\<close>

theorem optional_fields_only_when_present:
  assumes "load raw = Inr (acc, veh, cas)" and "join to_datetime acc veh cas = Inr joined"
  shows "\<exists>out. main to_datetime raw = Inr out
           \<and> (\<forall>n\<in>set optional_fields. n \<in> set (columns out) \<longleftrightarrow> n \<in> set (columns joined))
           \<and> (''vehicle_type'' \<notin> set (columns acc) \<and> ''vehicle_type'' \<notin> set (columns veh)
                \<and> ''vehicle_type'' \<notin> set (columns cas) \<longrightarrow> ''vehicle_type'' \<notin> set (columns out))"
proof -
  let ?dc = "date_col (columns acc)"
  let ?cs = "pick (columns joined) (keep_cols (columns joined) ?dc) (columns joined)"
  from tidy_Inr [of joined ?dc] obtain out where
    o: "tidy joined ?dc = Inr out"
    and c: "columns out =
         (if ''casualty_severity'' \<in> set ?cs \<and> ''severity'' \<notin> set ?cs
          then map (\<lambda>c. if c = ''casualty_severity'' then ''severity'' else c) ?cs else ?cs)"
    by blast
  have opt: "n \<in> set (columns out) \<longleftrightarrow> n \<in> set (columns joined)" if n: "n \<in> set optional_fields" for n
  proof -
    from optional_not_outcome [OF n] have "n \<in> set (columns out) \<longleftrightarrow> n \<in> set ?cs"
      by (simp add: c rename_mem del: set_map)
    also have "\<dots> \<longleftrightarrow> n \<in> set (columns joined)"
      by (simp add: set_kept keep_optional [OF n])
    finally show ?thesis .
  qed
  have vt: "''vehicle_type'' \<in> set optional_fields" by (simp add: optional_fields_def)
  have "''vehicle_type'' \<notin> set (columns out)"
    if "''vehicle_type'' \<notin> set (columns acc)" "''vehicle_type'' \<notin> set (columns cas)"
    using vehicle_type_not_joined [OF assms(2) that] opt [OF vt] by simp
  with opt o show ?thesis
    by (simp add: main_tidy [OF assms(1,2)])
qed

lemma ex_load_geo:
  "load ex_raw_geo =
     Inr (normalise_cols ex_accidents_geo, normalise_cols ex_vehicles_keys, normalise_cols ex_casualties)"
  by (simp add: load_def ex_raw_geo_def read_csv_fast_def ACC_FILE_def VEH_FILE_def
      CAS_FILE_def rect_def ex_accidents_geo_def ex_vehicles_keys_def ex_casualties_def)

lemma ex_join_geo:
  "join to_datetime_dayfirst (normalise_cols ex_accidents_geo) (normalise_cols ex_vehicles_keys)
     (normalise_cols ex_casualties) = Inr ex_joined_geo"
  by code_simp

theorem optional_fields_only_when_present_witness:
  "\<exists>out. main to_datetime_dayfirst ex_raw_geo = Inr out
     \<and> ''longitude'' \<in> set (columns out) \<and> ''latitude'' \<notin> set (columns out)
     \<and> ''vehicle_type'' \<notin> set (columns out)"
proof -
  have a: "''vehicle_type'' \<notin> set (columns (normalise_cols ex_accidents_geo))" by code_simp
  have v: "''vehicle_type'' \<notin> set (columns (normalise_cols ex_vehicles_keys))" by code_simp
  have c: "''vehicle_type'' \<notin> set (columns (normalise_cols ex_casualties))" by code_simp
  have lo: "''longitude'' \<in> set optional_fields" and la: "''latitude'' \<in> set optional_fields"
    by (simp_all add: optional_fields_def)
  have jlo: "''longitude'' \<in> set (columns ex_joined_geo)"
    and jla: "''latitude'' \<notin> set (columns ex_joined_geo)"
    by (simp_all add: ex_joined_geo_def)
  from optional_fields_only_when_present [OF ex_load_geo ex_join_geo] a v c lo la jlo jla
  show ?thesis by blast
qed









section \<open>Deriving the date columns\<close>

lemma rect_iff: "rect df \<longleftrightarrow> (\<forall>r\<in>set (rows df). length r = length (columns df))"
  by (simp add: rect_def list_all_iff)

lemma cell_of_set_same:
  "length r = length cols \<Longrightarrow> n \<in> set cols \<Longrightarrow>
   cell_of cols (map2 (\<lambda>c x. if c = n then v else x) cols r) n = v"
  by (induction r cols rule: list_induct2) (auto simp: cell_of_def)

lemma cell_of_set_other:
  "length r = length cols \<Longrightarrow> m \<noteq> n \<Longrightarrow>
   cell_of cols (map2 (\<lambda>c x. if c = n then v else x) cols r) m = cell_of cols r m"
  by (induction r cols rule: list_induct2) (auto simp: cell_of_def)

lemma cell_of_snoc_same:
  "length r = length cols \<Longrightarrow> n \<notin> set cols \<Longrightarrow> cell_of (cols @ [n]) (r @ [v]) n = v"
  by (induction r cols rule: list_induct2) (auto simp: cell_of_def)

lemma cell_of_snoc_other:
  "length r = length cols \<Longrightarrow> m \<noteq> n \<Longrightarrow> cell_of (cols @ [n]) (r @ [v]) m = cell_of cols r m"
  by (induction r cols rule: list_induct2) (auto simp: cell_of_def)

lemma rows_assign:
  "length vs = length (rows df) \<Longrightarrow> i < length (rows df) \<Longrightarrow>
   rows (assign n vs df) ! i =
     (if n \<in> set (columns df)
      then map2 (\<lambda>c x. if c = n then vs ! i else x) (columns df) (rows df ! i)
      else rows df ! i @ [vs ! i])"
  by (simp add: assign_def)

lemma length_rows_assign:
  "length vs = length (rows df) \<Longrightarrow> length (rows (assign n vs df)) = length (rows df)"
  by (simp add: assign_def)

lemma rect_assign:
  "rect df \<Longrightarrow> length vs = length (rows df) \<Longrightarrow> rect (assign n vs df)"
  by (auto simp: rect_iff assign_def set_zip)

lemma cell_assign_same:
  assumes "rect df" and "length vs = length (rows df)" and "i < length (rows df)"
  shows "cell_of (columns (assign n vs df)) (rows (assign n vs df) ! i) n = vs ! i"
proof -
  from assms(1,3) have l: "length (rows df ! i) = length (columns df)" by (simp add: rect_iff)
  show ?thesis
    using l by (simp add: rows_assign [OF assms(2,3)] columns_assign cell_of_set_same cell_of_snoc_same)
qed

lemma cell_assign_other:
  assumes "rect df" and "length vs = length (rows df)" and "i < length (rows df)" and "m \<noteq> n"
  shows "cell_of (columns (assign n vs df)) (rows (assign n vs df) ! i) m
         = cell_of (columns df) (rows df ! i) m"
proof -
  from assms(1,3) have l: "length (rows df ! i) = length (columns df)" by (simp add: rect_iff)
  show ?thesis
    using l assms(4) by (simp add: rows_assign [OF assms(2,3)] columns_assign cell_of_set_other cell_of_snoc_other)
qed

lemma derive_dates_cells:
  assumes r: "rect acc" and dc: "date_col (columns acc) = Some c"
      and cnt: "count_list (columns acc) c = 1"
  shows "\<exists>acc'. derive_dates P acc = Inr acc' \<and> rect acc'
           \<and> length (rows acc') = length (rows acc)
           \<and> (\<forall>i<length (rows acc).
                 cell_of (columns acc') (rows acc' ! i) c
                   = date_cell (P (cell_of (columns acc) (rows acc ! i) c))
               \<and> cell_of (columns acc') (rows acc' ! i) ''year''
                   = year_cell (P (cell_of (columns acc) (rows acc ! i) c))
               \<and> cell_of (columns acc') (rows acc' ! i) ''month''
                   = month_cell (P (cell_of (columns acc) (rows acc ! i) c))
               \<and> (\<forall>m. m \<noteq> c \<and> m \<noteq> ''year'' \<and> m \<noteq> ''month'' \<longrightarrow>
                     cell_of (columns acc') (rows acc' ! i) m = cell_of (columns acc) (rows acc ! i) m))"
proof -
  define ds where "ds = map (\<lambda>r. P (cell_of (columns acc) r c)) (rows acc)"
  define a1 where "a1 = assign c (map date_cell ds) acc"
  define a2 where "a2 = assign ''year'' (map year_cell ds) a1"
  define a3 where "a3 = assign ''month'' (map month_cell ds) a2"
  have d: "derive_dates P acc = Inr a3"
    by (simp add: derive_dates_def dc cnt Let_def ds_def a1_def a2_def a3_def)
  have len: "length ds = length (rows acc)" by (simp add: ds_def)
  have l1: "length (rows a1) = length (rows acc)"
    unfolding a1_def by (rule length_rows_assign) (simp add: len)
  have r1: "rect a1" unfolding a1_def by (rule rect_assign [OF r]) (simp add: len)
  have l2: "length (rows a2) = length (rows a1)"
    unfolding a2_def by (rule length_rows_assign) (simp add: len l1)
  have r2: "rect a2" unfolding a2_def by (rule rect_assign [OF r1]) (simp add: len l1)
  have l3: "length (rows a3) = length (rows a2)"
    unfolding a3_def by (rule length_rows_assign) (simp add: len l1 l2)
  have r3: "rect a3" unfolding a3_def by (rule rect_assign [OF r2]) (simp add: len l1 l2)
  from date_col_some [OF dc] have cy: "c \<noteq> ''year''" and cm: "c \<noteq> ''month''" by auto
  have cells: "cell_of (columns a3) (rows a3 ! i) c = date_cell (ds ! i)
       \<and> cell_of (columns a3) (rows a3 ! i) ''year'' = year_cell (ds ! i)
       \<and> cell_of (columns a3) (rows a3 ! i) ''month'' = month_cell (ds ! i)
       \<and> (\<forall>m. m \<noteq> c \<and> m \<noteq> ''year'' \<and> m \<noteq> ''month'' \<longrightarrow>
             cell_of (columns a3) (rows a3 ! i) m = cell_of (columns acc) (rows acc ! i) m)"
    if i: "i < length (rows acc)" for i
  proof -
    have i1: "i < length (rows a1)" and i2: "i < length (rows a2)" using i by (simp_all add: l1 l2)
    have e1: "length (map date_cell ds) = length (rows acc)" by (simp add: len)
    have e2: "length (map year_cell ds) = length (rows a1)" by (simp add: len l1)
    have e3: "length (map month_cell ds) = length (rows a2)" by (simp add: len l1 l2)
    have id: "i < length ds" using i by (simp add: len)
    have c3: "cell_of (columns a3) (rows a3 ! i) m = cell_of (columns a2) (rows a2 ! i) m"
      if "m \<noteq> ''month''" for m
      unfolding a3_def by (rule cell_assign_other [OF r2 e3 i2 that])
    have c2: "cell_of (columns a2) (rows a2 ! i) m = cell_of (columns a1) (rows a1 ! i) m"
      if "m \<noteq> ''year''" for m
      unfolding a2_def by (rule cell_assign_other [OF r1 e2 i1 that])
    have c1: "cell_of (columns a1) (rows a1 ! i) m = cell_of (columns acc) (rows acc ! i) m"
      if "m \<noteq> c" for m
      unfolding a1_def by (rule cell_assign_other [OF r e1 i that])
    have s1: "cell_of (columns a1) (rows a1 ! i) c = date_cell (ds ! i)"
      unfolding a1_def using cell_assign_same [OF r e1 i, of c] id by simp
    have s2: "cell_of (columns a2) (rows a2 ! i) ''year'' = year_cell (ds ! i)"
      unfolding a2_def using cell_assign_same [OF r1 e2 i1, of "''year''"] id by simp
    have s3: "cell_of (columns a3) (rows a3 ! i) ''month'' = month_cell (ds ! i)"
      unfolding a3_def using cell_assign_same [OF r2 e3 i2, of "''month''"] id by simp
    have "cell_of (columns a3) (rows a3 ! i) c = date_cell (ds ! i)"
      using c3 [OF cm] c2 [OF cy] s1 by simp
    moreover have "cell_of (columns a3) (rows a3 ! i) ''year'' = year_cell (ds ! i)"
      using c3 [of "''year''"] s2 by simp
    moreover have "cell_of (columns a3) (rows a3 ! i) m = cell_of (columns acc) (rows acc ! i) m"
      if "m \<noteq> c \<and> m \<noteq> ''year'' \<and> m \<noteq> ''month''" for m
      using that c3 [of m] c2 [of m] c1 [of m] by simp
    ultimately show ?thesis using s3 by blast
  qed
  have dsi: "ds ! i = P (cell_of (columns acc) (rows acc ! i) c)" if "i < length (rows acc)" for i
    using that by (simp add: ds_def)
  show ?thesis
    using d r3 l1 l2 l3 cells dsi by (intro exI [of _ a3]) simp
qed





section \<open>One row for each casualty\<close>

lemma filter_zip_absent: "n \<notin> set cols \<Longrightarrow> filter (\<lambda>p. fst p = n) (zip cols r) = []"
  by (auto simp: filter_empty_conv dest: set_zip_leftD)

lemma filter_zip_single:
  "length r = length cols \<Longrightarrow> count_list cols n = 1 \<Longrightarrow>
   map snd (filter (\<lambda>p. fst p = n) (zip cols r)) = [cell_of cols r n]"
proof (induction r cols rule: list_induct2)
  case Nil
  then show ?case by simp
next
  case (Cons y ys c cs)
  show ?case
  proof (cases "c = n")
    case True
    with Cons.prems have "count_list cs n = 0" by simp
    then have "n \<notin> set cs" using count_list_0_iff [of cs n] by simp
    then show ?thesis using True by (simp add: filter_zip_absent cell_of_def)
  next
    case False
    with Cons show ?thesis by (simp add: cell_of_def)
  qed
qed

lemma filter_eq_single: "count_list cols n = 1 \<Longrightarrow> filter (\<lambda>c. c = n) cols = [n]"
proof (induction cols)
  case Nil
  then show ?case by simp
next
  case (Cons c cs)
  show ?case
  proof (cases "c = n")
    case True
    with Cons.prems have "count_list cs n = 0" by simp
    then have "n \<notin> set cs" using count_list_0_iff [of cs n] by simp
    then have "filter (\<lambda>c. c = n) cs = []" by (auto simp: filter_empty_conv)
    with True show ?thesis by simp
  next
    case False
    with Cons show ?thesis by simp
  qed
qed

lemma drop_cols_all: "set cols \<subseteq> set ds \<Longrightarrow> drop_cols cols ds xs = []"
  by (auto simp: drop_cols_def filter_empty_conv dest: set_zip_leftD)

lemma filter_key_unique:
  "distinct (map f xs) \<Longrightarrow> length (filter (\<lambda>x. f x = k) xs) \<le> 1"
proof (induction xs)
  case Nil
  then show ?case by simp
next
  case (Cons x xs)
  show ?case
  proof (cases "f x = k")
    case True
    from Cons.prems have "f x \<notin> f ` set xs" by simp
    with True have "\<forall>y\<in>set xs. f y \<noteq> k" by blast
    then have "filter (\<lambda>x. f x = k) xs = []" by (simp add: filter_empty_conv)
    with True show ?thesis by simp
  next
    case False
    with Cons show ?thesis by simp
  qed
qed

lemma concat_singletons: "concat (map (\<lambda>x. [g x]) xs) = map g xs"
  by (induction xs) auto

lemma merge_left_rows_unique:
  assumes m: "merge_left l r lo ro sfx = Inr j"
      and u: "distinct (map (key_of r ro) (rows r))"
  shows "rows j = map (\<lambda>lr. lr @
            (case filter (\<lambda>rr. key_of r ro rr = key_of l lo lr) (rows r) of
               [] \<Rightarrow> replicate (length (filter (\<lambda>c. c \<notin> set (map snd (filter (\<lambda>p. fst p = snd p) (zip lo ro)))) (columns r))) Null
             | x # _ \<Rightarrow> drop_cols (columns r) (map snd (filter (\<lambda>p. fst p = snd p) (zip lo ro))) x))
          (rows l)"
proof -
  let ?rd = "map snd (filter (\<lambda>p. fst p = snd p) (zip lo ro))"
  let ?rc = "filter (\<lambda>c. c \<notin> set ?rd) (columns r)"
  let ?ms = "\<lambda>lr. filter (\<lambda>rr. key_of r ro rr = key_of l lo lr) (rows r)"
  let ?F = "\<lambda>lr. case ?ms lr of [] \<Rightarrow> [lr @ replicate (length ?rc) Null]
                 | ms \<Rightarrow> map (\<lambda>rr. lr @ drop_cols (columns r) ?rd rr) ms"
  let ?G = "\<lambda>lr. lr @ (case ?ms lr of [] \<Rightarrow> replicate (length ?rc) Null
                 | x # _ \<Rightarrow> drop_cols (columns r) ?rd x)"
  have "?F lr = [?G lr]" for lr
  proof -
    have "length (?ms lr) \<le> 1" by (rule filter_key_unique [OF u])
    then show ?thesis by (cases "?ms lr") (auto split: list.splits)
  qed
  then have "concat (map ?F (rows l)) = map ?G (rows l)"
    by (simp only: concat_singletons)
  with merge_left_Inr(2) [OF m] show ?thesis by simp
qed

lemma first_merge_keys:
  assumes "merge_left cas vk [cas_id, cas_ref] [veh_id, veh_ref] sfx = Inr cas'"
  shows "count_list (columns vk) veh_id = 1" and "count_list (columns vk) veh_ref = 1"
  using merge_left_Inr(3) [OF assms]
  by (auto simp: check_label_def split: option.splits if_splits)

lemma key_names_differ: "veh_id \<noteq> veh_ref"
  by (simp add: veh_id_def veh_ref_def)

lemma vk_shape:
  assumes g: "getitem veh [veh_id, veh_ref] = Inr vk" and r: "rect veh"
      and ci: "count_list (columns vk) veh_id = 1" and cr: "count_list (columns vk) veh_ref = 1"
  shows "columns vk = [veh_id, veh_ref]"
    and "rows vk = map (key_of veh [veh_id, veh_ref]) (rows veh)"
proof -
  from getitem_Inr [OF g] have cv: "columns vk = pick (columns veh) [veh_id, veh_ref] (columns veh)"
    and rv: "rows vk = map (pick (columns veh) [veh_id, veh_ref]) (rows veh)" by simp_all
  from ci cr key_names_differ have c1: "count_list (columns veh) veh_id = 1"
    and c2: "count_list (columns veh) veh_ref = 1"
    by (simp_all add: cv count_pick_self)
  show "columns vk = [veh_id, veh_ref]"
    by (simp add: cv pick_self filter_eq_single [OF c1] filter_eq_single [OF c2])
  have "pick (columns veh) [veh_id, veh_ref] x = key_of veh [veh_id, veh_ref] x"
    if "x \<in> set (rows veh)" for x
  proof -
    from r that have l: "length x = length (columns veh)" by (simp add: rect_iff)
    show ?thesis
      by (simp add: pick_def key_of_def filter_zip_single [OF l c1] filter_zip_single [OF l c2])
  qed
  then show "rows vk = map (key_of veh [veh_id, veh_ref]) (rows veh)"
    by (simp add: rv)
qed

lemma key_of_pair:
  "columns vk = [veh_id, veh_ref] \<Longrightarrow> key_of vk [veh_id, veh_ref] [a, b] = [a, b]"
  using key_names_differ by (simp add: key_of_def cell_of_def)

lemma key_of_length: "length (key_of df ks r) = length ks"
  by (simp add: key_of_def)

lemma first_merge_rows:
  assumes g: "getitem veh [veh_id, veh_ref] = Inr vk" and r: "rect veh"
      and m: "merge_left cas vk [cas_id, cas_ref] [veh_id, veh_ref] ('''', '''') = Inr cas'"
      and u: "distinct (map (key_of veh [veh_id, veh_ref]) (rows veh))"
  shows "rows cas' = rows cas"
proof -
  note sh = vk_shape [OF g r first_merge_keys [OF m]]
  have rd: "map snd (filter (\<lambda>p. fst p = snd p) (zip [cas_id, cas_ref] [veh_id, veh_ref])) = [veh_id, veh_ref]"
    by (simp add: cas_id_def cas_ref_def veh_id_def veh_ref_def)
  have k: "key_of vk [veh_id, veh_ref] (key_of veh [veh_id, veh_ref] x) = key_of veh [veh_id, veh_ref] x" for x
    by (simp add: key_of_def cell_of_def sh(1) key_names_differ)
  have "map (key_of vk [veh_id, veh_ref]) (rows vk) = map (key_of veh [veh_id, veh_ref]) (rows veh)"
    by (simp add: sh(2) k)
  with u have u': "distinct (map (key_of vk [veh_id, veh_ref]) (rows vk))" by simp
  have rc: "filter (\<lambda>c. c \<notin> set [veh_id, veh_ref]) (columns vk) = []"
    by (simp add: sh(1))
  have dc: "drop_cols (columns vk) [veh_id, veh_ref] x = []" for x :: "cell list"
    by (rule drop_cols_all) (simp add: sh(1))
  have "(case xs of [] \<Rightarrow> replicate (length ([] :: string list)) Null
           | x # _ \<Rightarrow> drop_cols (columns vk) [veh_id, veh_ref] x) = []" for xs :: "cell list list"
    by (cases xs) (simp_all add: dc)
  with merge_left_rows_unique [OF m u'] show ?thesis
    by (simp only: rd rc) simp
qed

lemma derive_dates_label:
  assumes d: "derive_dates P acc = Inr acc'" and r: "rect acc"
      and m: "m \<noteq> ''date''" "m \<noteq> ''accident_date''" "m \<noteq> ''year''" "m \<noteq> ''month''"
  shows "map (\<lambda>x. cell_of (columns acc') x m) (rows acc') = map (\<lambda>x. cell_of (columns acc) x m) (rows acc)"
proof (cases "date_col (columns acc)")
  case None
  with d show ?thesis by (simp add: derive_dates_def)
next
  case (Some c)
  with d have cnt: "count_list (columns acc) c = 1"
    by (auto simp: derive_dates_def split: if_splits)
  from date_col_some [OF Some] m have mc: "m \<noteq> c" by auto
  from derive_dates_cells [OF r Some cnt, of P] d
  have l: "length (rows acc') = length (rows acc)"
    and c: "\<And>i. i < length (rows acc) \<Longrightarrow>
              cell_of (columns acc') (rows acc' ! i) m = cell_of (columns acc) (rows acc ! i) m"
    using mc m by auto
  show ?thesis
    by (rule nth_equalityI) (simp_all add: l c)
qed

lemma acc_id_plain:
  "acc_id \<noteq> ''date''" "acc_id \<noteq> ''accident_date''" "acc_id \<noteq> ''year''" "acc_id \<noteq> ''month''"
  by (simp_all add: acc_id_def)

text \<open>
  Claim C2. Take rectangular tables in which no two vehicle rows have the same pair of
  collision id and vehicle reference and no two collision rows have the same collision
  id. When the two joins succeed, the joined table has as many rows as the casualty
  table, in the same order: its i-th row begins with the i-th casualty row, unchanged.
  When no collision row has the casualty's collision id, the rest of the row, the
  collision side, is all missing values.
\<close>

theorem join_one_row_per_casualty:
  assumes j: "join to_datetime acc veh cas = Inr joined"
      and ra: "rect acc" and rv: "rect veh"
      and uv: "distinct (map (key_of veh [veh_id, veh_ref]) (rows veh))"
      and ua: "distinct (map (key_of acc [acc_id]) (rows acc))"
  shows "length (rows joined) = length (rows cas)
       \<and> (\<forall>i<length (rows cas).
             take (length (rows cas ! i)) (rows joined ! i) = rows cas ! i
           \<and> ((\<forall>a\<in>set (rows acc). key_of acc [acc_id] a \<noteq> key_of cas [cas_id] (rows cas ! i)) \<longrightarrow>
                drop (length (rows cas ! i)) (rows joined ! i)
                  = replicate (length (columns joined) - length (columns cas)) Null))"
proof -
  from join_Inr [OF j] obtain acc' vk cas' where
    d: "derive_dates to_datetime acc = Inr acc'" and g: "getitem veh [veh_id, veh_ref] = Inr vk"
    and m1: "merge_left cas vk [cas_id, cas_ref] [veh_id, veh_ref] ('''', '''') = Inr cas'"
    and m2: "merge_left cas' acc' [cas_id] [acc_id] (''_cas'', ''_acc'') = Inr joined" by blast
  have c1: "columns cas' = columns cas" by (rule first_merge_columns [OF g m1])
  have r1: "rows cas' = rows cas" by (rule first_merge_rows [OF g rv m1 uv])
  have ko: "key_of df [acc_id] = (\<lambda>x. [cell_of (columns df) x acc_id])" for df
    by (rule ext) (simp add: key_of_def)
  have "map (key_of acc' [acc_id]) (rows acc')
          = map (\<lambda>v. [v]) (map (\<lambda>x. cell_of (columns acc') x acc_id) (rows acc'))"
    by (simp add: ko)
  also have "\<dots> = map (\<lambda>v. [v]) (map (\<lambda>x. cell_of (columns acc) x acc_id) (rows acc))"
    by (simp only: derive_dates_label [OF d ra acc_id_plain])
  also have "\<dots> = map (key_of acc [acc_id]) (rows acc)"
    by (simp add: ko)
  finally have keys: "map (key_of acc' [acc_id]) (rows acc') = map (key_of acc [acc_id]) (rows acc)" .
  with ua have ua': "distinct (map (key_of acc' [acc_id]) (rows acc'))" by simp
  let ?rd = "map snd (filter (\<lambda>p. fst p = snd p) (zip [cas_id] [acc_id]))"
  let ?rc = "filter (\<lambda>c. c \<notin> set ?rd) (columns acc')"
  let ?ext = "\<lambda>lr. case filter (\<lambda>rr. key_of acc' [acc_id] rr = key_of cas' [cas_id] lr) (rows acc') of
                     [] \<Rightarrow> replicate (length ?rc) Null
                   | x # _ \<Rightarrow> drop_cols (columns acc') ?rd x"
  have rj: "rows joined = map (\<lambda>lr. lr @ ?ext lr) (rows cas)"
    using merge_left_rows_unique [OF m2 ua'] by (simp only: r1)
  have kc: "key_of cas' [cas_id] lr = key_of cas [cas_id] lr" for lr
    by (simp add: key_of_def c1)
  have lj: "length (columns joined) - length (columns cas) = length ?rc"
    using merge_left_Inr(1) [OF m2] by (simp add: c1)
  have row: "take (length (rows cas ! i)) (rows joined ! i) = rows cas ! i
           \<and> ((\<forall>a\<in>set (rows acc). key_of acc [acc_id] a \<noteq> key_of cas [cas_id] (rows cas ! i)) \<longrightarrow>
                drop (length (rows cas ! i)) (rows joined ! i)
                  = replicate (length (columns joined) - length (columns cas)) Null)"
    if i: "i < length (rows cas)" for i
  proof -
    have e: "rows joined ! i = rows cas ! i @ ?ext (rows cas ! i)"
      using i by (simp add: rj)
    have "?ext (rows cas ! i) = replicate (length ?rc) Null"
      if un: "\<forall>a\<in>set (rows acc). key_of acc [acc_id] a \<noteq> key_of cas [cas_id] (rows cas ! i)"
    proof -
      have "key_of acc' [acc_id] x \<noteq> key_of cas [cas_id] (rows cas ! i)" if x: "x \<in> set (rows acc')" for x
      proof -
        from x have "key_of acc' [acc_id] x \<in> set (map (key_of acc' [acc_id]) (rows acc'))" by simp
        then have "key_of acc' [acc_id] x \<in> set (map (key_of acc [acc_id]) (rows acc))"
          by (simp only: keys)
        with un show ?thesis by auto
      qed
      then have "filter (\<lambda>rr. key_of acc' [acc_id] rr = key_of cas' [cas_id] (rows cas ! i)) (rows acc') = []"
        by (simp add: filter_empty_conv kc)
      then show ?thesis by simp
    qed
    then show ?thesis by (simp add: e lj)
  qed
  have "length (rows joined) = length (rows cas)" by (simp add: rj)
  with row show ?thesis by blast
qed

lemma ex_join_extra:
  "join to_datetime_dayfirst (normalise_cols ex_accidents) (normalise_cols ex_vehicles)
     (normalise_cols ex_casualties_extra) = Inr ex_joined_extra"
  by code_simp

theorem join_one_row_per_casualty_witness:
  "length (rows ex_joined_extra) = length (rows (normalise_cols ex_casualties_extra))
   \<and> take 3 (rows ex_joined_extra ! 3) = [Txt ''A3'', Num 1, Num 2]
   \<and> drop 3 (rows ex_joined_extra ! 3) = replicate 4 Null"
proof -
  let ?a = "normalise_cols ex_accidents" and ?v = "normalise_cols ex_vehicles"
  let ?c = "normalise_cols ex_casualties_extra"
  have ra: "rect ?a" and rv: "rect ?v" by code_simp+
  have uv: "distinct (map (key_of ?v [veh_id, veh_ref]) (rows ?v))" by code_simp
  have ua: "distinct (map (key_of ?a [acc_id]) (rows ?a))" by code_simp
  have i: "3 < length (rows ?c)" by code_simp
  have r3: "rows ?c ! 3 = [Txt ''A3'', Num 1, Num 2]" by code_simp
  have l3: "length (rows ?c ! 3) = 3" by code_simp
  have un: "\<forall>a\<in>set (rows ?a). key_of ?a [acc_id] a \<noteq> key_of ?c [cas_id] (rows ?c ! 3)" by code_simp
  have lc: "length (columns ex_joined_extra) - length (columns ?c) = 4" by code_simp
  from join_one_row_per_casualty [OF ex_join_extra ra rv uv ua]
  have "length (rows ex_joined_extra) = length (rows ?c)"
    and "take (length (rows ?c ! 3)) (rows ex_joined_extra ! 3) = rows ?c ! 3"
    and "drop (length (rows ?c ! 3)) (rows ex_joined_extra ! 3)
           = replicate (length (columns ex_joined_extra) - length (columns ?c)) Null"
    using i un by blast+
  then show ?thesis by (simp only: l3 lc) (simp only: r3)
qed

end
